theory Spec2Isabelle
  imports Complex_Main "HOL-Library.Word"
begin

section \<open>Common Python notions\<close>

text \<open>
  Exceptions of the Python sources are values: a function that may raise returns
  \<open>error + 'a\<close>, with \<open>Inl\<close> the exception that leaves the function.
\<close>

datatype error =
    AssertionError
  | AttributeError
  | IndexError
  | RuntimeError string
  | ValueError
  | ZeroDivisionError

text \<open>\<open>xs.index(x)\<close>: the first position of \<open>x\<close>; \<open>None\<close> stands for the ValueError.\<close>

fun list_index :: "'a list \<Rightarrow> 'a \<Rightarrow> nat option" where
  "list_index [] x = None"
| "list_index (y # ys) x = (if y = x then Some 0 else map_option Suc (list_index ys x))"

text \<open>\<open>xs[:n]\<close> for an integer \<open>n\<close>: a negative bound counts from the end.\<close>

definition slice_to :: "'a list \<Rightarrow> int \<Rightarrow> 'a list" where
  "slice_to xs n = (if 0 \<le> n then take (nat n) xs else take (length xs - nat (- n)) xs)"

text \<open>\<open>xs[i]\<close> for an integer \<open>i\<close>: a negative index counts from the end.\<close>

definition getitem_list :: "'a list \<Rightarrow> int \<Rightarrow> error + 'a" where
  "getitem_list xs i =
     (if 0 \<le> i \<and> i < int (length xs) then Inr (xs ! nat i)
      else if i < 0 \<and> - int (length xs) \<le> i then Inr (xs ! nat (int (length xs) + i))
      else Inl IndexError)"

section \<open>COCOSegmentation (references/segmentation/dataset\_utils.py)\<close>

text \<open>
  An annotation of the COCO index, with the three keys the class reads. Areas are
  numbers of pixels (JSON numbers); they are added in exact arithmetic here.
  The segmentation is kept abstract: it is only ever handed to the mask decoder.
\<close>

record 'seg annotation =
  category_id :: int
  area :: real
  segmentation :: 'seg

text \<open>
  What the class reads from the outside world: the annotation index built by
  pycocotools (\<open>getImgIds\<close>; \<open>getAnnIds\<close> followed by \<open>loadAnns\<close> for one
  image), the size \<open>(w, h)\<close> of the image file opened by PIL, and the mask decoder
  (\<open>frPyObjects\<close>, \<open>decode\<close> and \<open>any(axis=2)\<close>): \<open>decode_mask s h w r c\<close> tells
  whether the instance with segmentation \<open>s\<close> covers the pixel in row \<open>r\<close> and
  column \<open>c\<close> of an image of height \<open>h\<close> and width \<open>w\<close>.
\<close>

record ('i, 'seg) coco =
  getImgIds :: "'i list"
  loadAnns :: "'i \<Rightarrow> 'seg annotation list"
  image_size :: "'i \<Rightarrow> nat \<times> nat"
  decode_mask :: "'seg \<Rightarrow> nat \<Rightarrow> nat \<Rightarrow> nat \<Rightarrow> nat \<Rightarrow> bool"

text \<open>The fields of a constructed \<open>COCOSegmentation\<close> that the methods below use.\<close>

record ('i, 'seg) coco_segmentation =
  categories :: "int list"
  coco_dataset :: "('i, 'seg) coco"
  img_ids :: "'i list"
  num_imgs :: nat

text \<open>
  The category table chosen by \<open>__init__\<close>: the fixed list for 21 classes,
  \<open>range(num_classes)\<close> otherwise (80 when no number is given).
\<close>

definition init_categories :: "int option \<Rightarrow> int list" where
  "init_categories num_classes =
     (let n = (case num_classes of None \<Rightarrow> 80 | Some k \<Rightarrow> k)
      in if n = 21
         then [0, 5, 2, 16, 9, 44, 6, 3, 17, 62, 21, 67, 18, 19, 4, 1, 64, 20, 63, 7, 72]
         else [0 .. n - 1])"

definition has_valid_annotation :: "'seg annotation list \<Rightarrow> bool" where
  "has_valid_annotation anno =
     (if length anno = 0 then False
      else foldl (+) 0 (map area anno) > 1000)"

text \<open>
  The loop of \<open>_remove_images_without_annotations\<close>: the category filter is applied
  only when the category table is truthy (non-empty).
\<close>

fun remove_images_without_annotations ::
  "int list \<Rightarrow> ('i, 'seg) coco \<Rightarrow> 'i list \<Rightarrow> 'i list" where
  "remove_images_without_annotations cats ds [] = []"
| "remove_images_without_annotations cats ds (img_id # rest) =
     (let anno = loadAnns ds img_id;
          anno = (if cats \<noteq> [] then filter (\<lambda>obj. category_id obj \<in> set cats) anno else anno)
      in if has_valid_annotation anno
         then img_id # remove_images_without_annotations cats ds rest
         else remove_images_without_annotations cats ds rest)"

text \<open>
  \<open>__init__\<close>. \<open>has_annotations\<close> is whether the root folder lists an
  \<open>annotations\<close> entry (the assertion); \<open>shuffle\<close> is the shuffle argument as an
  integer (0 for False) and \<open>random_shuffle seed\<close> the permutation that
  \<open>random.seed(seed); random.shuffle\<close> applies.
\<close>

definition init ::
  "bool \<Rightarrow> ('i, 'seg) coco \<Rightarrow> (int \<Rightarrow> 'i list \<Rightarrow> 'i list) \<Rightarrow> int \<Rightarrow> int option \<Rightarrow> int option
   \<Rightarrow> error + ('i, 'seg) coco_segmentation" where
  "init has_annotations ds random_shuffle shuffle n_imgs num_classes =
     (let cats = init_categories num_classes
      in if \<not> has_annotations then Inl AssertionError
         else
           let ids = remove_images_without_annotations cats ds (getImgIds ds);
               ids = (if shuffle \<noteq> 0 then random_shuffle shuffle ids else ids);
               ids = (case n_imgs of None \<Rightarrow> ids | Some k \<Rightarrow> slice_to ids k)
           in Inr \<lparr>categories = cats, coco_dataset = ds, img_ids = ids, num_imgs = length ids\<rparr>)"

text \<open>
  \<open>_filter_and_remap_categories\<close>: keep the annotations whose category is in the
  table, then (on a copy) replace each category by its position in the table.
\<close>

fun remap_all :: "int list \<Rightarrow> 'seg annotation list \<Rightarrow> error + 'seg annotation list" where
  "remap_all cats [] = Inr []"
| "remap_all cats (obj # rest) =
     (case list_index cats (category_id obj) of
        None \<Rightarrow> Inl ValueError
      | Some k \<Rightarrow>
          (case remap_all cats rest of
             Inl e \<Rightarrow> Inl e
           | Inr rest' \<Rightarrow> Inr (obj\<lparr>category_id := int k\<rparr> # rest')))"

definition filter_and_remap_categories ::
  "int list \<Rightarrow> 'seg annotation list \<Rightarrow> bool \<Rightarrow> error + 'seg annotation list" where
  "filter_and_remap_categories cats anno remap =
     (let anno = filter (\<lambda>obj. category_id obj \<in> set cats) anno
      in if \<not> remap then Inr anno else remap_all cats anno)"

text \<open>
  \<open>_convert_poly_to_mask\<close>: one \<open>uint8\<close> array of shape \<open>(height, width)\<close> per
  segmentation, 1 where the instance covers the pixel; arrays are lists of rows.
\<close>

definition convert_poly_to_mask ::
  "('seg \<Rightarrow> nat \<Rightarrow> nat \<Rightarrow> nat \<Rightarrow> nat \<Rightarrow> bool) \<Rightarrow> 'seg list \<Rightarrow> nat \<Rightarrow> nat \<Rightarrow> 8 word list list list" where
  "convert_poly_to_mask dec segmentations height width =
     map (\<lambda>polygons.
            map (\<lambda>r. map (\<lambda>c. if dec polygons height width r c then 1 else 0) [0..<width])
                [0..<height])
         segmentations"

text \<open>
  The array operations of \<open>_convert_polys_to_mask\<close>, element by element:
  \<open>masks * cats\<close> with \<open>cats\<close> of shape \<open>(n, 1, 1)\<close> in \<open>uint8\<close> (the product
  wraps modulo 256), \<open>max(axis=0)\<close> (unsigned order), and \<open>sum(0)\<close>, which numpy
  accumulates in a 64-bit unsigned integer: the sum is a natural number here, as a
  wrap would need \<open>2^64\<close> masks.
\<close>

definition mul_cats :: "8 word list list list \<Rightarrow> 8 word list \<Rightarrow> 8 word list list list" where
  "mul_cats masks cats = map2 (\<lambda>m c. map (map (\<lambda>v. v * c)) m) masks cats"

fun max_axis0 :: "8 word list list list \<Rightarrow> 8 word list list" where
  "max_axis0 [] = []"
| "max_axis0 (m # ms) = fold (\<lambda>a acc. map2 (map2 max) acc a) ms m"

definition sum_axis0 :: "nat \<Rightarrow> nat \<Rightarrow> 8 word list list list \<Rightarrow> nat list list" where
  "sum_axis0 height width masks =
     fold (\<lambda>a acc. map2 (map2 (\<lambda>s v. s + unat v)) acc a) masks
       (replicate height (replicate width 0))"

text \<open>
  \<open>_convert_polys_to_mask\<close>, for an image of size \<open>(w, h)\<close>. The categories are
  converted to the dtype of the masks, \<open>uint8\<close> (modulo 256).
\<close>

definition convert_polys_to_mask ::
  "('seg \<Rightarrow> nat \<Rightarrow> nat \<Rightarrow> nat \<Rightarrow> nat \<Rightarrow> bool) \<Rightarrow> nat \<times> nat \<Rightarrow> 'seg annotation list \<Rightarrow> 8 word list list" where
  "convert_polys_to_mask dec size_wh anno =
     (let w = fst size_wh; h = snd size_wh;
          segmentations = map segmentation anno;
          cats = map category_id anno
      in if segmentations \<noteq> []
         then
           let masks = convert_poly_to_mask dec segmentations h w;
               cats8 = map word_of_int cats;
               target = max_axis0 (mul_cats masks cats8);
               overlap = sum_axis0 h w masks
           in map2 (map2 (\<lambda>t s. if s > 1 then 255 else t)) target overlap
         else replicate h (replicate w 0))"

text \<open>
  \<open>__getitem__\<close> with \<open>with_label=True\<close>: the label map of the image at position
  \<open>idx\<close>. (The image itself is returned unchanged apart from a colour conversion
  and is left out.)
\<close>

definition getitem ::
  "('i, 'seg) coco_segmentation \<Rightarrow> int \<Rightarrow> error + 8 word list list" where
  "getitem self idx =
     (case getitem_list (img_ids self) idx of
        Inl e \<Rightarrow> Inl e
      | Inr img_id \<Rightarrow>
          (let ds = coco_dataset self;
               anno = loadAnns ds img_id
           in case filter_and_remap_categories (categories self) anno True of
                Inl e \<Rightarrow> Inl e
              | Inr anno' \<Rightarrow>
                  Inr (convert_polys_to_mask (decode_mask ds) (image_size ds img_id) anno')))"

section \<open>The classification training driver (references/classification/train.py)\<close>

subsection \<open>Strings and numbers of Python\<close>

text \<open>
  A Python string is a list of characters here, each a code point below 256.
  \<open>isspace\<close> is \<open>str.isspace\<close> on such a character, \<open>lstrip\<close> is \<open>str.lstrip()\<close>
  (leading whitespace only), \<open>lower\<close> is \<open>str.lower()\<close> and \<open>str_split\<close> is
  \<open>s.split(',')\<close>, which returns one (possibly empty) piece more than \<open>s\<close> has commas.
\<close>

definition isspace :: "char \<Rightarrow> bool" where
  "isspace ch = ((of_char ch :: nat) \<in> {9, 10, 11, 12, 13, 28, 29, 30, 31, 32, 133, 160})"

definition lstrip :: "string \<Rightarrow> string" where
  "lstrip s = dropWhile isspace s"

definition lower_char :: "char \<Rightarrow> char" where
  "lower_char ch =
     (let n = (of_char ch :: nat)
      in if (65 \<le> n \<and> n \<le> 90) \<or> (192 \<le> n \<and> n \<le> 222 \<and> n \<noteq> 215) then char_of (n + 32) else ch)"

definition lower :: "string \<Rightarrow> string" where
  "lower s = map lower_char s"

definition startswith :: "string \<Rightarrow> string \<Rightarrow> bool" where
  "startswith s p = (take (length p) s = p)"

fun str_split :: "string \<Rightarrow> string list" where
  "str_split [] = [[]]"
| "str_split (ch # rest) =
     (if ch = CHR '','' then [] # str_split rest
      else (case str_split rest of
              [] \<Rightarrow> [[ch]]
            | piece # pieces \<Rightarrow> (ch # piece) # pieces))"

text \<open>The decimal text of an integer, as an f-string prints it.\<close>

fun str_nat :: "nat \<Rightarrow> string" where
  "str_nat n = (if n < 10 then [char_of (48 + n)] else str_nat (n div 10) @ [char_of (48 + n mod 10)])"

declare str_nat.simps [simp del]

definition str_int :: "int \<Rightarrow> string" where
  "str_int i = (if i < 0 then CHR ''-'' # str_nat (nat (- i)) else str_nat (nat i))"

text \<open>
  \<open>round(x)\<close> with one argument: the nearest integer, a tie going to the even
  neighbour. The argument is a real number here: the product
  \<open>factor * dataset_len\<close> is taken exactly.
\<close>

definition py_round :: "real \<Rightarrow> int" where
  "py_round x =
     (let f = \<lfloor>x\<rfloor>; d = x - of_int f
      in if d < 1 / 2 then f
         else if 1 / 2 < d then f + 1
         else if even f then f else f + 1)"

text \<open>Truthiness of a value that is \<open>None\<close> or a string.\<close>

definition truthy :: "string option \<Rightarrow> bool" where
  "truthy v = (case v of None \<Rightarrow> False | Some s \<Rightarrow> s \<noteq> [])"

subsection \<open>The run configuration\<close>

text \<open>
  The options of \<open>get_args_parser\<close> that decide the control flow modelled below, and
  the two attributes \<open>weights_url\<close> and \<open>weights_enum\<close> that \<open>main\<close> adds.
  Accuracies and the EMA decay are real numbers.
\<close>

record args =
  output_dir :: string
  weights :: "string option"
  weights_url :: "string option"
  weights_enum :: "string option"
  distributed :: int
  parallel :: int
  test_only :: bool
  pruning :: int
  opt :: string
  lr_scheduler :: string
  lr_warmup_epochs :: int
  lr_warmup_method :: string
  model_ema :: bool
  model_ema_steps :: int
  model_ema_decay :: real
  world_size :: int
  batch_size :: int
  epochs :: int
  start_epoch :: int
  resume :: string
  train_epoch_size_factor :: real
  val_epoch_size_factor :: real

text \<open>The defaults of the parser (what \<open>parse_args\<close> returns for an empty command line).\<close>

definition default_args :: args where
  "default_args =
     \<lparr>output_dir = ''.'',
      weights = None,
      weights_url = None,
      weights_enum = None,
      distributed = 0,
      parallel = 0,
      test_only = False,
      pruning = 0,
      opt = ''sgd'',
      lr_scheduler = ''steplr'',
      lr_warmup_epochs = 0,
      lr_warmup_method = ''constant'',
      model_ema = False,
      model_ema_steps = 32,
      model_ema_decay = 99998 / 100000,
      world_size = 1,
      batch_size = 32,
      epochs = 90,
      start_epoch = 0,
      resume = [],
      train_epoch_size_factor = 0,
      val_epoch_size_factor = 0\<rparr>"

text \<open>
  What the driver takes from outside this file: the recogniser of URLs and file paths
  of the model-optimisation toolkit, \<open>utils.init_distributed_mode\<close> (which updates
  the configuration in place), the value of the enumeration member
  \<open>PruningVersion.PRUNING_LEGACY\<close>, the epoch stored in the checkpoint named by
  \<open>--resume\<close>, the lengths of the two data loaders, and the top-1 accuracy that
  \<open>evaluate\<close> measures for the plain or the EMA model after the training of an epoch.
\<close>

datatype model_kind = Plain | EMA

record env =
  is_url_or_file :: "string \<Rightarrow> bool"
  init_distributed_mode :: "args \<Rightarrow> args"
  PRUNING_LEGACY :: int
  checkpoint_epoch :: int
  train_loader_len :: nat
  test_loader_len :: nat
  accuracy :: "model_kind \<Rightarrow> int \<Rightarrow> real"

subsection \<open>split\_weights\<close>

fun split_loop ::
  "(string \<Rightarrow> bool) \<Rightarrow> string list \<Rightarrow> string list \<times> string list \<Rightarrow> string list \<times> string list" where
  "split_loop recognised [] acc = acc"
| "split_loop recognised (w # ws) (weights_urls, weights_enums) =
     (let w = lstrip w
      in if recognised w
         then split_loop recognised ws (weights_urls @ [w], weights_enums)
         else split_loop recognised ws (weights_urls, weights_enums @ [w]))"

text \<open>\<open>weights_name\<close> is a string or \<open>None\<close>; \<open>None\<close> has no \<open>split\<close> attribute.\<close>

definition split_weights ::
  "(string \<Rightarrow> bool) \<Rightarrow> string option \<Rightarrow> error + (string option \<times> string option)" where
  "split_weights recognised weights_name =
     (case weights_name of
        None \<Rightarrow> Inl AttributeError
      | Some name \<Rightarrow>
          (let weights_list = str_split name;
               (weights_urls, weights_enums) = split_loop recognised weights_list ([], [])
           in Inr (if length weights_urls > 0 then Some (weights_urls ! 0) else None,
                   if length weights_enums > 0 then Some (weights_enums ! 0) else None)))"

subsection \<open>train\_one\_epoch and evaluate\<close>

text \<open>
  What one iteration of the batch loop of \<open>train_one_epoch\<close> does, as far as the
  claims go: the batch with index \<open>i\<close> is processed (forward, backward, optimiser
  step), then the EMA model is updated when \<open>i\<close> is a multiple of
  \<open>model_ema_steps\<close>, and reset during warm-up.
\<close>

datatype step = Processed nat | UpdateEma nat | ResetEma nat

text \<open>
  The loop over \<open>enumerate(data_loader)\<close>; the list holds the indices still to come.
  \<open>i % args.model_ema_steps\<close> is evaluated only when there is an EMA model and
  raises for a zero step count. The test for leaving the loop stands at the end of
  the body, after the batch has been processed.
\<close>

fun train_loop :: "args \<Rightarrow> bool \<Rightarrow> int \<Rightarrow> nat \<Rightarrow> nat list \<Rightarrow> error + step list" where
  "train_loop a ema epoch dataset_len [] = Inr []"
| "train_loop a ema epoch dataset_len (i # rest) =
     (if ema \<and> model_ema_steps a = 0 then Inl ZeroDivisionError
      else
        let update =
              (if ema \<and> int i mod model_ema_steps a = 0
               then UpdateEma i # (if epoch < lr_warmup_epochs a then [ResetEma i] else [])
               else []);
            body = Processed i # update
        in if train_epoch_size_factor a \<noteq> 0 \<and>
              py_round (train_epoch_size_factor a * real dataset_len) \<le> int i
           then Inr body
           else (case train_loop a ema epoch dataset_len rest of
                   Inl e \<Rightarrow> Inl e
                 | Inr later \<Rightarrow> Inr (body @ later)))"

definition train_one_epoch :: "args \<Rightarrow> bool \<Rightarrow> int \<Rightarrow> nat \<Rightarrow> error + step list" where
  "train_one_epoch a ema epoch dataset_len = train_loop a ema epoch dataset_len [0..<dataset_len]"

text \<open>The batch loop of \<open>evaluate\<close>: the indices of the batches it processes.\<close>

fun evaluate_loop :: "args \<Rightarrow> nat \<Rightarrow> nat list \<Rightarrow> nat list" where
  "evaluate_loop a dataset_len [] = []"
| "evaluate_loop a dataset_len (i # rest) =
     (if val_epoch_size_factor a \<noteq> 0 \<and>
         py_round (val_epoch_size_factor a * real dataset_len) \<le> int i
      then [i]
      else i # evaluate_loop a dataset_len rest)"

text \<open>\<open>evaluate\<close> returns the accuracy; the processed batches are kept beside it.\<close>

definition evaluate :: "env \<Rightarrow> args \<Rightarrow> model_kind \<Rightarrow> int \<Rightarrow> nat list \<times> real" where
  "evaluate e a kind epoch =
     (evaluate_loop a (test_loader_len e) [0..<test_loader_len e], accuracy e kind epoch)"

subsection \<open>main\<close>

text \<open>
  The observable steps of \<open>main\<close>, in the order they happen. \<open>SaveOnMaster epoch f\<close> is
  \<open>utils.save_on_master\<close> of a checkpoint record with that epoch to the file \<open>f\<close> of
  the output directory, \<open>ExportModel epoch f\<close> is \<open>export_model\<close> with that epoch
  and file name.
\<close>

datatype event =
    MkDir
  | OpenLog
  | InitDistributed
  | LoadData
  | CreateModel
  | LoadWeights
  | CreateOptimizer
  | CreateScheduler
  | CreateEMA real
  | LoadCheckpoint
  | SetEpoch int
  | TrainOneEpoch int "step list"
  | LrStep
  | Evaluate model_kind int "nat list"
  | SaveOnMaster int string
  | ExportModel int string
  | CloseLog

text \<open>The decay handed to \<open>ExponentialMovingAverage\<close> (for a non-zero number of epochs).\<close>

definition ema_decay :: "args \<Rightarrow> real" where
  "ema_decay a =
     (let adjust = real_of_int (world_size a * batch_size a * model_ema_steps a) / real_of_int (epochs a);
          alpha = 1 - model_ema_decay a;
          alpha = min 1 (alpha * adjust)
      in 1 - alpha)"

text \<open>
  \<open>main\<close> up to the test of \<open>args.test_only\<close>: every \<open>raise\<close> and the assertion are
  branches, in the order of the source; calls into other modules are taken to return.
  The result is the configuration as \<open>main\<close> has updated it and the decay of the EMA
  model if there is one.
\<close>

definition main_setup :: "env \<Rightarrow> args \<Rightarrow> event list \<times> (error + args \<times> real option)" where
  "main_setup e args0 =
     (let tr = (if output_dir args0 \<noteq> [] then [MkDir] else []) @ [OpenLog]
      in case split_weights (is_url_or_file e) (weights args0) of
           Inl err \<Rightarrow> (tr, Inl err)
         | Inr (url, enum) \<Rightarrow>
             let a = init_distributed_mode e (args0\<lparr>weights_url := url, weights_enum := enum\<rparr>);
                 tr = tr @ [InitDistributed]
             in if distributed a \<noteq> 0 \<and> parallel a \<noteq> 0
                then (tr, Inl (RuntimeError
                        ''both DistributedDataParallel and DataParallel cannot be used simultaneously''))
                else
                  let tr = tr @ [LoadData, CreateModel] @
                             (if truthy (weights_url a) \<and> \<not> test_only a then [LoadWeights] else [])
                  in if pruning a = PRUNING_LEGACY e then (tr, Inl AssertionError)
                     else
                       let tr = tr @ (if truthy (weights_url a) \<and> test_only a then [LoadWeights] else []);
                           opt_name = lower (opt a)
                       in if \<not> (startswith opt_name ''sgd'' \<or> opt_name = ''rmsprop'' \<or> opt_name = ''adamw'')
                          then (tr, Inl (RuntimeError (''Invalid optimizer '' @ opt a @
                                  ''. Only SGD, RMSprop and AdamW are supported.'')))
                          else
                            let tr = tr @ [CreateOptimizer];
                                a = a\<lparr>lr_scheduler := lower (lr_scheduler a)\<rparr>
                            in if lr_scheduler a \<notin> {''steplr'', ''cosineannealinglr'', ''exponentiallr''}
                               then (tr, Inl (RuntimeError (''Invalid lr scheduler '' @ lr_scheduler a)))
                               else if 0 < lr_warmup_epochs a \<and>
                                       lr_warmup_method a \<notin> {''linear'', ''constant''}
                               then (tr, Inl (RuntimeError (''Invalid warmup lr method '' @ lr_warmup_method a)))
                               else
                                 let tr = tr @ [CreateScheduler]
                                 in if model_ema a \<and> epochs a = 0 then (tr, Inl ZeroDivisionError)
                                    else
                                      let decay = (if model_ema a then Some (ema_decay a) else None);
                                          tr = tr @ (case decay of None \<Rightarrow> [] | Some d \<Rightarrow> [CreateEMA d])
                                      in if resume a \<noteq> []
                                         then (tr @ [LoadCheckpoint],
                                               Inr (a\<lparr>start_epoch := checkpoint_epoch e + 1\<rparr>, decay))
                                         else (tr, Inr (a, decay)))"

text \<open>
  The body of the epoch loop after \<open>train_one_epoch\<close> has returned \<open>steps\<close>, with
  \<open>best_acc\<close> as it stands before the epoch: the events of the epoch and the new
  \<open>best_acc\<close>. There is an EMA model exactly when \<open>args.model_ema\<close> is set.
\<close>

definition epoch_body :: "env \<Rightarrow> args \<Rightarrow> real \<Rightarrow> int \<Rightarrow> step list \<Rightarrow> event list \<times> real" where
  "epoch_body e a best_acc epoch steps =
     (let tr = (if distributed a \<noteq> 0 then [SetEpoch epoch] else []) @ [TrainOneEpoch epoch steps, LrStep];
          (batches, epoch_acc) = evaluate e a Plain epoch;
          tr = tr @ [Evaluate Plain epoch batches];
          (tr, epoch_acc) =
             (if model_ema a
              then (let (batches, ema_acc) = evaluate e a EMA epoch
                    in (tr @ [Evaluate EMA epoch batches], ema_acc))
              else (tr, epoch_acc))
      in if output_dir a \<noteq> []
         then
           let tr = tr @
                 (if epoch = 0 \<or> epochs a - 10 \<le> epoch
                  then [SaveOnMaster epoch (''checkpoint_'' @ str_int epoch @ ''.pth''),
                        ExportModel epoch (''model_'' @ str_int epoch @ ''.onnx'')]
                  else [])
           in if best_acc \<le> epoch_acc
              then (tr @ [SaveOnMaster epoch ''checkpoint.pth'', ExportModel epoch ''model.onnx''], epoch_acc)
              else (tr, best_acc)
         else (tr, best_acc))"

text \<open>
  The loop \<open>for epoch in range(args.start_epoch, args.epochs)\<close> over the epochs to
  come, and \<open>main\<close>. (The evaluation of a test-only run carries the epoch 0 of its
  call of \<open>export_model\<close>.)
\<close>

fun main_loop :: "env \<Rightarrow> args \<Rightarrow> real \<Rightarrow> int list \<Rightarrow> event list \<times> (error + real)" where
  "main_loop e a best_acc [] = ([], Inr best_acc)"
| "main_loop e a best_acc (epoch # rest) =
     (case train_one_epoch a (model_ema a) epoch (train_loader_len e) of
        Inl err \<Rightarrow> ((if distributed a \<noteq> 0 then [SetEpoch epoch] else []), Inl err)
      | Inr steps \<Rightarrow>
          (let (tr, best_acc) = epoch_body e a best_acc epoch steps;
               (later, result) = main_loop e a best_acc rest
           in (tr @ later, result)))"

definition main :: "env \<Rightarrow> args \<Rightarrow> event list \<times> (error + unit)" where
  "main e args0 =
     (case main_setup e args0 of
        (tr, Inl err) \<Rightarrow> (tr, Inl err)
      | (tr, Inr (a, decay)) \<Rightarrow>
          if test_only a
          then (tr @ [Evaluate (if model_ema a then EMA else Plain) 0
                        (fst (evaluate e a (if model_ema a then EMA else Plain) 0)),
                      ExportModel 0 ''model_test.onnx''],
                Inr ())
          else
            (case main_loop e a 0 [start_epoch a .. epochs a - 1] of
               (later, Inl err) \<Rightarrow> (tr @ later, Inl err)
             | (later, Inr best_acc) \<Rightarrow> (tr @ later @ [CloseLog], Inr ())))"
section \<open>Auxiliary notions and example inputs for the dataset class\<close>

text \<open>An array of \<open>h\<close> rows with \<open>w\<close> entries each.\<close>

definition shaped :: "nat \<Rightarrow> nat \<Rightarrow> 'a list list \<Rightarrow> bool" where
  "shaped h w m = (length m = h \<and> (\<forall>row \<in> set m. length row = w))"

text \<open>
  What one annotation contributes to a pixel of \<open>masks * cats\<close>: its category,
  converted to \<open>uint8\<close>, where its mask covers the pixel, and 0 elsewhere.
\<close>

definition pixel_value :: "('seg \<Rightarrow> nat \<Rightarrow> nat \<Rightarrow> nat \<Rightarrow> nat \<Rightarrow> bool) \<Rightarrow> nat \<Rightarrow> nat \<Rightarrow> nat \<Rightarrow> nat \<Rightarrow> 'seg annotation \<Rightarrow> 8 word" where
  "pixel_value dec h w r c obj =
     (if dec (segmentation obj) h w r c then word_of_int (category_id obj) else 0)"

text \<open>
  The test that the body of the loop of \<open>_remove_images_without_annotations\<close>
  applies to one image, with \<open>_has_valid_annotation\<close> written as a sum.
\<close>

definition retained_by_filter :: "int list \<Rightarrow> ('i, 'seg) coco \<Rightarrow> 'i \<Rightarrow> bool" where
  "retained_by_filter cats ds img_id =
     (let anno = loadAnns ds img_id;
          kept = (if cats \<noteq> [] then filter (\<lambda>obj. category_id obj \<in> set cats) anno else anno)
      in kept \<noteq> [] \<and> sum_list (map area kept) > 1000)"

text \<open>
  A dataset of one image of width 4 and height 1 with three instances: a bottle
  (category 44) on columns 0 and 1, a person (category 1) on column 0 and a truck
  (category 8, not among the 21 classes) on columns 0 to 2.
\<close>

definition overlap_example :: "(nat, nat) coco_segmentation" where
  "overlap_example =
     \<lparr>categories = init_categories (Some 21),
      coco_dataset =
        \<lparr>getImgIds = [7],
         loadAnns = (\<lambda>i. [\<lparr>category_id = 44, area = 2000, segmentation = 2\<rparr>,
                           \<lparr>category_id = 1, area = 500, segmentation = 1\<rparr>,
                           \<lparr>category_id = 8, area = 900, segmentation = 3\<rparr>]),
         image_size = (\<lambda>i. (4, 1)),
         decode_mask = (\<lambda>s h w r c. c < s)\<rparr>,
      img_ids = [7],
      num_imgs = 1\<rparr>"

text \<open>
  Two images: the first shows a bottle (44) and a truck (8), the second a truck only.
\<close>

definition voc_example :: "(nat, unit) coco" where
  "voc_example =
     \<lparr>getImgIds = [1, 2],
      loadAnns = (\<lambda>i. if i = 1 then [\<lparr>category_id = 44, area = 5000, segmentation = ()\<rparr>,
                                     \<lparr>category_id = 8, area = 5000, segmentation = ()\<rparr>]
                       else [\<lparr>category_id = 8, area = 5000, segmentation = ()\<rparr>]),
      image_size = (\<lambda>i. (2, 2)),
      decode_mask = (\<lambda>s h w r c. True)\<rparr>"

text \<open>Two images, each with one instance of category 1 and area 2000.\<close>

definition capped_example :: "(nat, unit) coco" where
  "capped_example =
     \<lparr>getImgIds = [1, 2],
      loadAnns = (\<lambda>i. [\<lparr>category_id = 1, area = 2000, segmentation = ()\<rparr>]),
      image_size = (\<lambda>i. (2, 2)),
      decode_mask = (\<lambda>s h w r c. True)\<rparr>"

text \<open>
  Four images: areas 1000 and 1001 in category 1, one instance of category 85
  (outside \<open>range(80)\<close>), and an image whose in-scope areas 600 and 401 add up to
  1001 beside an out-of-scope instance.
\<close>

definition threshold_example :: "(nat, unit) coco" where
  "threshold_example =
     \<lparr>getImgIds = [1, 2, 3, 4],
      loadAnns = (\<lambda>i. if i = 1 then [\<lparr>category_id = 1, area = 1000, segmentation = ()\<rparr>]
                       else if i = 2 then [\<lparr>category_id = 1, area = 1001, segmentation = ()\<rparr>]
                       else if i = 3 then [\<lparr>category_id = 85, area = 5000, segmentation = ()\<rparr>]
                       else [\<lparr>category_id = 3, area = 600, segmentation = ()\<rparr>,
                             \<lparr>category_id = 85, area = 5000, segmentation = ()\<rparr>,
                             \<lparr>category_id = 4, area = 401, segmentation = ()\<rparr>]),
      image_size = (\<lambda>i. (2, 2)),
      decode_mask = (\<lambda>s h w r c. True)\<rparr>"

section \<open>Properties of the dataset class\<close>

lemma remove_images_filter:
  "remove_images_without_annotations cats ds ids =
     filter (\<lambda>i. has_valid_annotation
                  (if cats \<noteq> [] then filter (\<lambda>obj. category_id obj \<in> set cats) (loadAnns ds i)
                   else loadAnns ds i)) ids"
  by (induction ids) (simp_all add: Let_def)

lemma foldl_add_sum_list: "foldl (+) a xs = a + sum_list (xs :: real list)"
  by (induction xs arbitrary: a) simp_all

lemma has_valid_annotation_iff:
  "has_valid_annotation anno \<longleftrightarrow> anno \<noteq> [] \<and> sum_list (map area anno) > 1000"
  by (simp add: has_valid_annotation_def foldl_add_sum_list)

lemma list_index_Some:
  "list_index xs x = Some k \<Longrightarrow> k < length xs \<and> xs ! k = x \<and> (\<forall>j<k. xs ! j \<noteq> x)"
proof (induction xs arbitrary: k)
  case Nil
  then show ?case by simp
next
  case (Cons y ys)
  show ?case
  proof (cases "y = x")
    case True
    with Cons.prems show ?thesis by simp
  next
    case False
    with Cons.prems obtain k' where k': "list_index ys x = Some k'" "k = Suc k'"
      by auto
    from Cons.IH [OF k'(1)] False k'(2) show ?thesis
      by (auto simp: nth_Cons split: nat.splits)
  qed
qed

lemma list_index_mem: "x \<in> set xs \<Longrightarrow> \<exists>k. list_index xs x = Some k"
  by (induction xs) auto

lemma remap_all_filtered:
  "\<forall>obj \<in> set anno. category_id obj \<in> set cats \<Longrightarrow>
   \<exists>anno'. remap_all cats anno = Inr anno' \<and> length anno' = length anno \<and>
     (\<forall>k < length anno.
        list_index cats (category_id (anno ! k)) = Some (nat (category_id (anno' ! k))) \<and>
        0 \<le> category_id (anno' ! k) \<and>
        area (anno' ! k) = area (anno ! k) \<and>
        segmentation (anno' ! k) = segmentation (anno ! k))"
proof (induction anno)
  case Nil
  then show ?case by simp
next
  case (Cons obj rest)
  then obtain rest' where r: "remap_all cats rest = Inr rest'" "length rest' = length rest"
    "\<forall>k < length rest.
        list_index cats (category_id (rest ! k)) = Some (nat (category_id (rest' ! k))) \<and>
        0 \<le> category_id (rest' ! k) \<and>
        area (rest' ! k) = area (rest ! k) \<and>
        segmentation (rest' ! k) = segmentation (rest ! k)"
    by auto
  from Cons.prems obtain j where j: "list_index cats (category_id obj) = Some j"
    using list_index_mem by force
  show ?case using r j by (auto simp: nth_Cons split: nat.splits)
qed

lemma slice_to_subset: "set (slice_to xs n) \<subseteq> set xs"
  by (auto simp: slice_to_def dest: in_set_takeD)

lemma remap_all_map:
  "\<forall>obj \<in> set anno. category_id obj \<in> set cats \<Longrightarrow>
   remap_all cats anno =
     Inr (map (\<lambda>obj. obj\<lparr>category_id := int (the (list_index cats (category_id obj)))\<rparr>) anno)"
proof (induction anno)
  case Nil
  then show ?case by simp
next
  case (Cons obj rest)
  from Cons.prems obtain j where j: "list_index cats (category_id obj) = Some j"
    using list_index_mem by force
  with Cons show ?case by simp
qed

lemma shaped_map2:
  "shaped h w a \<Longrightarrow> shaped h w b \<Longrightarrow> shaped h w (map2 (map2 f) a b)"
  by (auto simp: shaped_def set_zip)

lemma nth_map2_map2:
  "shaped h w a \<Longrightarrow> shaped h w b \<Longrightarrow> r < h \<Longrightarrow> c < w \<Longrightarrow>
   map2 (map2 f) a b ! r ! c = f (a ! r ! c) (b ! r ! c)"
  by (simp add: shaped_def)

lemma fold_map2_pixel:
  "shaped h w acc \<Longrightarrow> \<forall>m \<in> set ms. shaped h w m \<Longrightarrow> r < h \<Longrightarrow> c < w \<Longrightarrow>
   shaped h w (fold (\<lambda>a acc. map2 (map2 f) acc a) ms acc) \<and>
   fold (\<lambda>a acc. map2 (map2 f) acc a) ms acc ! r ! c =
     fold (\<lambda>a v. f v (a ! r ! c)) ms (acc ! r ! c)"
proof (induction ms arbitrary: acc)
  case Nil
  then show ?case by simp
next
  case (Cons m ms)
  have s: "shaped h w (map2 (map2 f) acc m)"
    using Cons.prems by (simp add: shaped_map2)
  have p: "map2 (map2 f) acc m ! r ! c = f (acc ! r ! c) (m ! r ! c)"
    using Cons.prems by (simp add: nth_map2_map2)
  from Cons.IH [OF s] Cons.prems p show ?case by simp
qed

lemma shaped_replicate: "shaped h w (replicate h (replicate w x))"
  by (simp add: shaped_def)

lemma shaped_mask:
  "m \<in> set (convert_poly_to_mask dec segs h w) \<Longrightarrow> shaped h w m"
  by (auto simp: convert_poly_to_mask_def shaped_def)

lemma mask_pixel:
  "k < length segs \<Longrightarrow> r < h \<Longrightarrow> c < w \<Longrightarrow>
   convert_poly_to_mask dec segs h w ! k ! r ! c = (if dec (segs ! k) h w r c then 1 else 0)"
  by (simp add: convert_poly_to_mask_def)

lemma map2_same: "map2 f (map g xs) (map k xs) = map (\<lambda>x. f (g x) (k x)) xs"
  by (induction xs) simp_all

lemma fold_max_Max:
  "fold (\<lambda>x v. max v (g x)) xs (v0 :: 8 word) = Max (insert v0 (g ` set xs))"
proof (induction xs arbitrary: v0)
  case Nil
  then show ?case by simp
next
  case (Cons x xs)
  have "Max (insert (max v0 (g x)) (g ` set xs)) = Max (insert v0 (insert (g x) (g ` set xs)))"
    by (cases "g ` set xs = {}") (simp_all add: max.assoc)
  with Cons.IH [of "max v0 (g x)"] show ?case by simp
qed

lemma fold_count:
  "fold (\<lambda>x s. s + (if P x then 1 else 0)) xs (n :: nat) = n + length (filter P xs)"
  by (induction xs arbitrary: n) simp_all

lemma product_pixel:
  assumes "r < h" "c < w"
  shows "map (map (\<lambda>v. v * word_of_int (category_id obj)))
           (map (\<lambda>r. map (\<lambda>c. if dec (segmentation obj) h w r c then 1 else 0) [0..<w]) [0..<h]) ! r ! c
         = pixel_value dec h w r c obj"
  using assms by (simp add: pixel_value_def)

lemma target_pixel:
  fixes anno :: "'seg annotation list"
  assumes "r < h" "c < w" "anno \<noteq> []"
  shows "max_axis0 (mul_cats (convert_poly_to_mask dec (map segmentation anno) h w)
                      (map word_of_int (map category_id anno))) ! r ! c
         = Max (pixel_value dec h w r c ` set anno)
       \<and> shaped h w (max_axis0 (mul_cats (convert_poly_to_mask dec (map segmentation anno) h w)
                      (map word_of_int (map category_id anno))))"
proof -
  define P where "P = (\<lambda>obj :: 'seg annotation. map (map (\<lambda>v :: 8 word. v * word_of_int (category_id obj)))
           (map (\<lambda>r. map (\<lambda>c. if dec (segmentation obj) h w r c then 1 else 0) [0..<w]) [0..<h]))"
  have sh: "shaped h w (P obj)" for obj
    by (simp add: P_def shaped_def)
  have px: "P obj ! r ! c = pixel_value dec h w r c obj" for obj
    unfolding P_def using assms(1,2) by (rule product_pixel)
  have stack: "mul_cats (convert_poly_to_mask dec (map segmentation anno) h w)
                      (map word_of_int (map category_id anno)) = map P anno"
    by (simp add: mul_cats_def convert_poly_to_mask_def P_def map2_same)
  from assms(3) obtain obj rest where a: "anno = obj # rest"
    by (cases anno) auto
  have f: "shaped h w (fold (\<lambda>a acc. map2 (map2 max) acc a) (map P rest) (P obj)) \<and>
        fold (\<lambda>a acc. map2 (map2 max) acc a) (map P rest) (P obj) ! r ! c
        = fold (\<lambda>a v. max v (a ! r ! c)) (map P rest) (P obj ! r ! c)"
    using assms(1,2) sh by (intro fold_map2_pixel) auto
  have "fold (\<lambda>a v. max v (a ! r ! c)) (map P rest) (P obj ! r ! c)
        = fold (\<lambda>x v. max v (pixel_value dec h w r c x)) rest (pixel_value dec h w r c obj)"
    by (simp add: fold_map comp_def px)
  also have "\<dots> = Max (pixel_value dec h w r c ` set anno)"
    by (simp add: fold_max_Max a)
  finally have "fold (\<lambda>a v. max v (a ! r ! c)) (map P rest) (P obj ! r ! c)
        = Max (pixel_value dec h w r c ` set anno)" .
  with f have "max_axis0 (map P anno) ! r ! c = Max (pixel_value dec h w r c ` set anno)
      \<and> shaped h w (max_axis0 (map P anno))"
    by (simp add: a)
  then show ?thesis unfolding stack .
qed

lemma overlap_pixel:
  fixes anno :: "'seg annotation list"
  assumes "r < h" "c < w"
  shows "sum_axis0 h w (convert_poly_to_mask dec (map segmentation anno) h w) ! r ! c
         = length (filter (\<lambda>obj. dec (segmentation obj) h w r c) anno)
       \<and> shaped h w (sum_axis0 h w (convert_poly_to_mask dec (map segmentation anno) h w))"
proof -
  define M where "M = (\<lambda>obj :: 'seg annotation.
      map (\<lambda>r. map (\<lambda>c. if dec (segmentation obj) h w r c then (1 :: 8 word) else 0) [0..<w]) [0..<h])"
  have sh: "shaped h w (M obj)" for obj
    by (simp add: M_def shaped_def)
  have px: "unat (M obj ! r ! c) = (if dec (segmentation obj) h w r c then 1 else 0)" for obj
    using assms by (simp add: M_def)
  have stack: "convert_poly_to_mask dec (map segmentation anno) h w = map M anno"
    by (simp add: convert_poly_to_mask_def M_def comp_def)
  have f: "shaped h w (fold (\<lambda>a acc. map2 (map2 (\<lambda>s v. s + unat v)) acc a) (map M anno)
              (replicate h (replicate w 0))) \<and>
        fold (\<lambda>a acc. map2 (map2 (\<lambda>s v. s + unat v)) acc a) (map M anno)
              (replicate h (replicate w 0)) ! r ! c
        = fold (\<lambda>a s. s + unat (a ! r ! c)) (map M anno) (replicate h (replicate w 0) ! r ! c)"
    using assms sh by (intro fold_map2_pixel) (auto simp: shaped_replicate)
  have "fold (\<lambda>a s. s + unat (a ! r ! c)) (map M anno) (replicate h (replicate w 0) ! r ! c)
        = fold (\<lambda>x s. s + (if dec (segmentation x) h w r c then 1 else 0)) anno 0"
    using assms by (simp add: fold_map comp_def px)
  also have "\<dots> = length (filter (\<lambda>obj. dec (segmentation obj) h w r c) anno)"
    by (simp add: fold_count)
  finally show ?thesis using f by (simp add: sum_axis0_def stack)
qed

lemma convert_pixel:
  fixes anno :: "'seg annotation list"
  assumes "r < h" "c < w"
  shows "convert_polys_to_mask dec (w, h) anno ! r ! c =
     (if anno = [] then 0
      else if length (filter (\<lambda>obj. dec (segmentation obj) h w r c) anno) > 1 then 255
      else Max (pixel_value dec h w r c ` set anno))"
proof (cases "anno = []")
  case True
  with assms show ?thesis by (simp add: convert_polys_to_mask_def)
next
  case False
  note t = target_pixel [OF assms False, of dec]
  note s = overlap_pixel [OF assms, of dec anno]
  have "map2 (map2 (\<lambda>t s. if s > 1 then 255 else t))
          (max_axis0 (mul_cats (convert_poly_to_mask dec (map segmentation anno) h w)
                      (map word_of_int (map category_id anno))))
          (sum_axis0 h w (convert_poly_to_mask dec (map segmentation anno) h w)) ! r ! c
        = (if length (filter (\<lambda>obj. dec (segmentation obj) h w r c) anno) > 1 then 255
           else Max (pixel_value dec h w r c ` set anno))"
    using t s assms by (simp add: nth_map2_map2 [where h = h and w = w])
  with False show ?thesis by (simp add: convert_polys_to_mask_def Let_def)
qed

lemma Max_pixel_none:
  fixes anno :: "'seg annotation list"
  assumes "anno \<noteq> []" "filter (\<lambda>obj. dec (segmentation obj) h w r c) anno = []"
  shows "Max (pixel_value dec h w r c ` set anno) = 0"
proof -
  from assms(2) have "\<forall>obj \<in> set anno. pixel_value dec h w r c obj = 0"
    by (auto simp: pixel_value_def filter_empty_conv)
  with assms(1) have "pixel_value dec h w r c ` set anno = {0}"
    by (cases anno) auto
  then show ?thesis by simp
qed

lemma Max_pixel_one:
  fixes anno :: "'seg annotation list"
  assumes "filter (\<lambda>obj. dec (segmentation obj) h w r c) anno = [obj]"
  shows "Max (pixel_value dec h w r c ` set anno) = word_of_int (category_id obj)"
proof -
  have "obj \<in> set (filter (\<lambda>obj. dec (segmentation obj) h w r c) anno)"
    by (simp add: assms)
  then have mem: "obj \<in> set anno" and cov: "dec (segmentation obj) h w r c"
    by auto
  have others: "pixel_value dec h w r c x \<le> word_of_int (category_id obj)" if "x \<in> set anno" for x
  proof (cases "dec (segmentation x) h w r c")
    case True
    with that have "x \<in> set (filter (\<lambda>obj. dec (segmentation obj) h w r c) anno)" by simp
    then have "x = obj" by (simp add: assms)
    with cov show ?thesis by (simp add: pixel_value_def)
  next
    case False
    then show ?thesis by (simp add: pixel_value_def)
  qed
  have "pixel_value dec h w r c obj = word_of_int (category_id obj)"
    using cov by (simp add: pixel_value_def)
  with mem have "word_of_int (category_id obj) \<in> pixel_value dec h w r c ` set anno"
    by force
  then show ?thesis using others by (intro Max_eqI) auto
qed

text \<open>
  Claim C3. In labelled item access, a pixel covered by more than one decoded instance
  mask (the masks of the annotations kept by the category filter, whatever their
  categories) has label 255; a pixel covered by no mask has label 0; a pixel covered
  by exactly one mask has the remapped category of that instance, which is the
  per-pixel maximum that 255 overrides.
\<close>

theorem getitem_overlap_ignore:
  fixes self :: "('i, 'seg) coco_segmentation"
  assumes "getitem_list (img_ids self) idx = Inr img_id"
    and "image_size (coco_dataset self) img_id = (w, h)"
    and "r < h" and "c < w"
  shows "\<exists>target. getitem self idx = Inr target \<and>
     (let kept = filter (\<lambda>obj. category_id obj \<in> set (categories self))
                   (loadAnns (coco_dataset self) img_id);
          covering = filter (\<lambda>obj. decode_mask (coco_dataset self) (segmentation obj) h w r c) kept
      in (1 < length covering \<longrightarrow> target ! r ! c = 255) \<and>
         (covering = [] \<longrightarrow> target ! r ! c = 0) \<and>
         (\<forall>obj. covering = [obj] \<longrightarrow>
            (\<exists>k. list_index (categories self) (category_id obj) = Some k \<and>
                 target ! r ! c = word_of_nat k)))"
proof -
  define cats where "cats = categories self"
  define ds where "ds = coco_dataset self"
  define dec where "dec = decode_mask ds"
  define kept where "kept = filter (\<lambda>obj. category_id obj \<in> set cats) (loadAnns ds img_id)"
  define rm where "rm = (\<lambda>obj :: 'seg annotation.
     obj\<lparr>category_id := int (the (list_index cats (category_id obj)))\<rparr>)"
  define covers where "covers = (\<lambda>obj :: 'seg annotation. dec (segmentation obj) h w r c)"
  have "\<forall>obj \<in> set kept. category_id obj \<in> set cats"
    by (simp add: kept_def)
  then have remap: "filter_and_remap_categories cats (loadAnns ds img_id) True = Inr (map rm kept)"
    unfolding filter_and_remap_categories_def kept_def [symmetric] rm_def
    by (simp add: remap_all_map)
  have res: "getitem self idx = Inr (convert_polys_to_mask dec (w, h) (map rm kept))"
    using assms(1,2) remap by (simp add: getitem_def cats_def ds_def dec_def Let_def)
  have seg: "segmentation (rm obj) = segmentation obj" for obj
    by (simp add: rm_def)
  have cov: "filter (\<lambda>obj. dec (segmentation obj) h w r c) (map rm kept) = map rm (filter covers kept)"
    by (simp add: filter_map comp_def seg covers_def)
  note px = convert_pixel [OF assms(3,4), of dec "map rm kept"]
  have many: "convert_polys_to_mask dec (w, h) (map rm kept) ! r ! c = 255"
    if "1 < length (filter covers kept)"
  proof -
    from that have "kept \<noteq> []" by auto
    with that show ?thesis by (simp add: px cov)
  qed
  have none: "convert_polys_to_mask dec (w, h) (map rm kept) ! r ! c = 0"
    if "filter covers kept = []"
  proof (cases "kept = []")
    case True
    then show ?thesis by (simp add: convert_pixel [OF assms(3,4)])
  next
    case False
    then have "map rm kept \<noteq> []" by simp
    from Max_pixel_none [OF this, of dec h w r c] that show ?thesis
      by (simp add: px cov)
  qed
  have one: "\<exists>k. list_index cats (category_id obj) = Some k \<and>
                convert_polys_to_mask dec (w, h) (map rm kept) ! r ! c = word_of_nat k"
    if "filter covers kept = [obj]" for obj
  proof -
    have "obj \<in> set (filter covers kept)" by (simp add: that)
    then have "category_id obj \<in> set cats" by (auto simp: kept_def)
    then obtain k where k: "list_index cats (category_id obj) = Some k"
      using list_index_mem by force
    have "kept \<noteq> []" using that by auto
    moreover have "filter (\<lambda>obj. dec (segmentation obj) h w r c) (map rm kept) = [rm obj]"
      by (simp add: cov that)
    from Max_pixel_one [of dec h w r c "map rm kept" "rm obj", OF this]
    have "Max (pixel_value dec h w r c ` set (map rm kept)) = word_of_nat k"
      by (simp add: rm_def k)
    ultimately show ?thesis using that k by (simp add: px cov)
  qed
  show ?thesis
    unfolding res cats_def [symmetric] ds_def [symmetric] dec_def [symmetric] Let_def
      kept_def [symmetric]
    using many none one by (auto simp: covers_def)
qed

text \<open>
  The theorem at the example: the bottle and the person overlap on column 0 (255),
  column 1 is the bottle alone (class 5), the truck is not decoded at all.
\<close>

theorem getitem_overlap_ignore_witness:
  "getitem_list (img_ids overlap_example) 0 = Inr 7 \<and>
   image_size (coco_dataset overlap_example) 7 = (4, 1) \<and>
   getitem overlap_example 0 = Inr [[255, 5, 0, 0]]"
proof -
  have h1: "getitem_list (img_ids overlap_example) 0 = Inr 7"
    by code_simp
  have h2: "image_size (coco_dataset overlap_example) 7 = (4, 1)"
    by (simp add: overlap_example_def)
  have e: "getitem overlap_example 0 = Inr [[255, 5, 0, 0]]"
    by code_simp
  show ?thesis
    using getitem_overlap_ignore [OF h1 h2, of 0 0] h1 h2 e by simp
qed

lemma init_img_ids_subset:
  assumes "init has_ann ds random_shuffle shuffle n_imgs num_classes = Inr self"
    and "\<forall>xs. set (random_shuffle shuffle xs) = set xs"
  shows "set (img_ids self) \<subseteq>
         set (remove_images_without_annotations (init_categories num_classes) ds (getImgIds ds))"
proof -
  define ids where
    "ids = remove_images_without_annotations (init_categories num_classes) ds (getImgIds ds)"
  define ids' where "ids' = (if shuffle \<noteq> 0 then random_shuffle shuffle ids else ids)"
  have s: "set ids' = set ids" using assms(2) by (simp add: ids'_def)
  from assms(1) have "img_ids self = (case n_imgs of None \<Rightarrow> ids' | Some k \<Rightarrow> slice_to ids' k)"
    unfolding ids'_def ids_def by (cases has_ann) (auto simp: init_def Let_def)
  then have "set (img_ids self) \<subseteq> set ids'"
    using slice_to_subset [of ids'] by (cases n_imgs) auto
  with s show ?thesis by (simp add: ids_def)
qed

text \<open>
  Claim C4. For 21 classes the category table is the fixed list; labelled access keeps
  the annotations whose category is in the list and replaces each category by its
  position in the list (44 becomes 5), dropping the others; an image all of whose
  annotations lie outside the list is not retained by the filter of the constructor,
  hence not by the constructor.
\<close>

theorem voc_category_table:
  fixes anno :: "'seg annotation list" and ds :: "('i, 'seg) coco"
  shows "init_categories (Some 21) =
           [0, 5, 2, 16, 9, 44, 6, 3, 17, 62, 21, 67, 18, 19, 4, 1, 64, 20, 63, 7, 72] \<and>
         list_index (init_categories (Some 21)) 44 = Some 5 \<and>
         (let cats = init_categories (Some 21);
              kept = filter (\<lambda>obj. category_id obj \<in> set cats) anno
          in \<exists>anno'. filter_and_remap_categories cats anno True = Inr anno' \<and>
               length anno' = length kept \<and>
               (\<forall>k < length kept.
                  list_index cats (category_id (kept ! k)) = Some (nat (category_id (anno' ! k))) \<and>
                  0 \<le> category_id (anno' ! k) \<and>
                  area (anno' ! k) = area (kept ! k) \<and>
                  segmentation (anno' ! k) = segmentation (kept ! k))) \<and>
         ((\<forall>obj \<in> set (loadAnns ds img_id). category_id obj \<notin> set (init_categories (Some 21))) \<longrightarrow>
            img_id \<notin> set (remove_images_without_annotations (init_categories (Some 21)) ds ids) \<and>
            (\<forall>self. init has_ann ds random_shuffle shuffle n_imgs (Some 21) = Inr self \<longrightarrow>
                    (\<forall>xs. set (random_shuffle shuffle xs) = set xs) \<longrightarrow>
                    img_id \<notin> set (img_ids self)))"
proof -
  define cats where "cats = init_categories (Some 21)"
  have table: "cats = [0, 5, 2, 16, 9, 44, 6, 3, 17, 62, 21, 67, 18, 19, 4, 1, 64, 20, 63, 7, 72]"
    by (simp add: cats_def init_categories_def)
  have pos: "list_index cats 44 = Some 5"
    by (simp add: table)
  have remap: "\<exists>anno'. filter_and_remap_categories cats anno True = Inr anno' \<and>
               length anno' = length (filter (\<lambda>obj. category_id obj \<in> set cats) anno) \<and>
               (\<forall>k < length (filter (\<lambda>obj. category_id obj \<in> set cats) anno).
                  list_index cats (category_id (filter (\<lambda>obj. category_id obj \<in> set cats) anno ! k))
                    = Some (nat (category_id (anno' ! k))) \<and>
                  0 \<le> category_id (anno' ! k) \<and>
                  area (anno' ! k) = area (filter (\<lambda>obj. category_id obj \<in> set cats) anno ! k) \<and>
                  segmentation (anno' ! k)
                    = segmentation (filter (\<lambda>obj. category_id obj \<in> set cats) anno ! k))"
    unfolding filter_and_remap_categories_def Let_def
    using remap_all_filtered [of "filter (\<lambda>obj. category_id obj \<in> set cats) anno" cats]
    by simp
  have excl: "img_id \<notin> set (remove_images_without_annotations cats ds ids')"
    if "\<forall>obj \<in> set (loadAnns ds img_id). category_id obj \<notin> set cats" for ids'
  proof -
    have "cats \<noteq> []" by (simp add: table)
    moreover from that have "filter (\<lambda>obj. category_id obj \<in> set cats) (loadAnns ds img_id) = []"
      by (simp add: filter_empty_conv)
    ultimately show ?thesis
      by (simp add: remove_images_filter has_valid_annotation_def)
  qed
  have excl_init: "img_id \<notin> set (img_ids self)"
    if "\<forall>obj \<in> set (loadAnns ds img_id). category_id obj \<notin> set cats"
      and "init has_ann ds random_shuffle shuffle n_imgs (Some 21) = Inr self"
      and "\<forall>xs. set (random_shuffle shuffle xs) = set xs" for self
    using init_img_ids_subset [OF that(2,3)] excl [OF that(1)] by (auto simp: cats_def)
  show ?thesis
    unfolding cats_def [symmetric] Let_def
    using table pos remap excl excl_init by blast
qed

text \<open>The theorem at the example with a bottle and a truck.\<close>

theorem voc_category_table_witness:
  "map category_id (loadAnns voc_example 2) = [8] \<and>
   8 \<notin> set (init_categories (Some 21)) \<and>
   filter_and_remap_categories (init_categories (Some 21)) (loadAnns voc_example 1) True
     = Inr [\<lparr>category_id = 5, area = 5000, segmentation = ()\<rparr>] \<and>
   map_sum id img_ids (init True voc_example (\<lambda>seed xs. xs) 0 None (Some 21)) = Inr [1]"
proof -
  have h: "\<forall>obj \<in> set (loadAnns voc_example 2). category_id obj \<notin> set (init_categories (Some 21))"
    by (simp add: voc_example_def init_categories_def)
  have a: "map category_id (loadAnns voc_example 2) = [8]"
    by (simp add: voc_example_def)
  have b: "8 \<notin> set (init_categories (Some 21))"
    by (simp add: init_categories_def)
  have c: "filter_and_remap_categories (init_categories (Some 21)) (loadAnns voc_example 1) True
     = Inr [\<lparr>category_id = 5, area = 5000, segmentation = ()\<rparr>]"
    by (simp add: voc_example_def init_categories_def filter_and_remap_categories_def)
  have d: "map_sum id img_ids (init True voc_example (\<lambda>seed xs. xs) 0 None (Some 21)) = Inr [1]"
    by (simp add: voc_example_def init_categories_def init_def has_valid_annotation_def)
  show ?thesis
    using voc_category_table [of "loadAnns voc_example 1" voc_example 2 "[1, 2]"
        True "\<lambda>seed xs. xs" 0 None] h a b c d
    by simp
qed

text \<open>
  Claim C5 as stated (an image is retained by the construction exactly when its
  annotations filtered to the category set are non-empty with areas summing to more
  than 1000) fails at two inputs. With a cap of one image, image 2 passes the test
  and is not retained. With \<open>num_classes = 0\<close> the category table is empty, the
  constructor skips the category filter, and image 1 is retained although its
  annotations filtered to the (empty) category set are empty.
\<close>

theorem retention_iff_counterexample:
  "map_sum id img_ids (init True capped_example (\<lambda>seed xs. xs) 0 (Some 1) None) = Inr [1] \<and>
   2 \<in> set (getImgIds capped_example) \<and>
   filter (\<lambda>obj. category_id obj \<in> set (init_categories None)) (loadAnns capped_example 2)
     = [\<lparr>category_id = 1, area = 2000, segmentation = ()\<rparr>] \<and>
   map_sum id img_ids (init True capped_example (\<lambda>seed xs. xs) 0 None (Some 0)) = Inr [1, 2] \<and>
   filter (\<lambda>obj. category_id obj \<in> set (init_categories (Some 0))) (loadAnns capped_example 1) = []"
  by (simp add: capped_example_def init_def init_categories_def has_valid_annotation_def
      slice_to_def Let_def)

lemma retained_by_filter_alt:
  "retained_by_filter cats ds i =
     has_valid_annotation
       (if cats \<noteq> [] then filter (\<lambda>obj. category_id obj \<in> set cats) (loadAnns ds i)
        else loadAnns ds i)"
  by (simp add: retained_by_filter_def has_valid_annotation_iff Let_def)

lemma remove_images_retained:
  "remove_images_without_annotations cats ds ids = filter (retained_by_filter cats ds) ids"
  by (induction ids) (simp_all add: retained_by_filter_alt Let_def)

text \<open>
  Claim C5, amended. Every image retained by the construction is an image of the index
  that passes the test of the filter loop; without a cap (\<open>num_imgs\<close> is None) the
  retained images are exactly those; with a cap and no shuffle they are the first
  \<open>num_imgs\<close> of those; and for a non-empty category table the test is: the
  annotations filtered to the table are non-empty and their areas sum to strictly more
  than 1000 (for an empty table the annotations are not filtered).
\<close>

theorem retention_at_construction:
  fixes ds :: "('i, 'seg) coco"
  assumes "init has_ann ds random_shuffle shuffle n_imgs num_classes = Inr self"
    and "\<forall>xs. set (random_shuffle shuffle xs) = set xs"
  shows "(img_id \<in> set (img_ids self) \<longrightarrow>
            img_id \<in> set (getImgIds ds) \<and> retained_by_filter (categories self) ds img_id) \<and>
         (n_imgs = None \<longrightarrow>
            (img_id \<in> set (img_ids self) \<longleftrightarrow>
             img_id \<in> set (getImgIds ds) \<and> retained_by_filter (categories self) ds img_id)) \<and>
         (\<forall>k. n_imgs = Some k \<and> shuffle = 0 \<longrightarrow>
            img_ids self = slice_to (filter (retained_by_filter (categories self) ds) (getImgIds ds)) k) \<and>
         (categories self \<noteq> [] \<longrightarrow>
            retained_by_filter (categories self) ds img_id =
              (let kept = filter (\<lambda>obj. category_id obj \<in> set (categories self)) (loadAnns ds img_id)
               in kept \<noteq> [] \<and> sum_list (map area kept) > 1000))"
proof -
  define cats where "cats = init_categories num_classes"
  define ids where "ids = filter (retained_by_filter cats ds) (getImgIds ds)"
  define ids' where "ids' = (if shuffle \<noteq> 0 then random_shuffle shuffle ids else ids)"
  from assms(1) have c: "categories self = cats"
    and i: "img_ids self = (case n_imgs of None \<Rightarrow> ids' | Some k \<Rightarrow> slice_to ids' k)"
    unfolding ids'_def ids_def cats_def remove_images_retained [symmetric]
    by (cases has_ann; auto simp: init_def Let_def)+
  have s: "set ids' = set ids" using assms(2) by (simp add: ids'_def)
  have sub: "set (img_ids self) \<subseteq> set ids"
    using slice_to_subset [of ids'] s by (cases n_imgs) (auto simp: i)
  have all: "set (img_ids self) = set ids" if "n_imgs = None"
    using that s by (simp add: i)
  have cap: "img_ids self = slice_to ids k" if "n_imgs = Some k" "shuffle = 0" for k
    using that by (simp add: i ids'_def)
  have unf: "retained_by_filter cats ds img_id =
              (let kept = filter (\<lambda>obj. category_id obj \<in> set cats) (loadAnns ds img_id)
               in kept \<noteq> [] \<and> sum_list (map area kept) > 1000)" if "cats \<noteq> []"
    using that by (simp add: retained_by_filter_def Let_def)
  show ?thesis
    unfolding c using sub all cap unf by (auto simp: ids_def)
qed

text \<open>
  The theorem at the example: area 1000 is excluded, area 1001 is retained, the
  out-of-scope image is excluded, all at construction.
\<close>

theorem retention_at_construction_witness:
  "map_sum id img_ids (init True threshold_example (\<lambda>seed xs. rev xs) 0 None None) = Inr [2, 4] \<and>
   map_sum id img_ids (init True threshold_example (\<lambda>seed xs. rev xs) 5 (Some 1) None) = Inr [4] \<and>
   \<not> retained_by_filter (init_categories None) threshold_example 1 \<and>
   retained_by_filter (init_categories None) threshold_example 2 \<and>
   \<not> retained_by_filter (init_categories None) threshold_example 3"
proof -
  obtain self where s: "init True threshold_example (\<lambda>seed xs. rev xs) 0 None None = Inr self"
    by (simp add: init_def Let_def)
  have p: "\<forall>xs :: nat list. set ((\<lambda>seed xs. rev xs) (0 :: int) xs) = set xs"
    by simp
  have a: "map_sum id img_ids (init True threshold_example (\<lambda>seed xs. rev xs) 0 None None) = Inr [2, 4]"
    by (simp add: threshold_example_def init_def init_categories_def has_valid_annotation_def)
  have b: "map_sum id img_ids (init True threshold_example (\<lambda>seed xs. rev xs) 5 (Some 1) None) = Inr [4]"
    by (simp add: threshold_example_def init_def init_categories_def has_valid_annotation_def
        slice_to_def)
  have c: "\<not> retained_by_filter (init_categories None) threshold_example 1 \<and>
   retained_by_filter (init_categories None) threshold_example 2 \<and>
   \<not> retained_by_filter (init_categories None) threshold_example 3"
    by (simp add: threshold_example_def init_categories_def retained_by_filter_def)
  show ?thesis
    using retention_at_construction [OF s p, of 2] a b c by simp
qed


end
